theory Spec2Isabelle
  imports Main "HOL-Library.Sublist"
begin

section \<open>Strings\<close>

text \<open>
  A JavaScript string is modelled as a \<^typ>\<open>string\<close>: a list of 8-bit code units, read as
  the code points U+0000 to U+00FF (Latin-1). On this range \<open>String.prototype.toLowerCase\<close>
  works unit by unit: it moves A-Z and the accented capitals U+00C0 to U+00DE (except the
  multiplication sign U+00D7) up by 32 and leaves every other unit alone.
\<close>

definition toLowerCase_char :: "char \<Rightarrow> char" where
  "toLowerCase_char c =
     (let n = (of_char c :: nat)
      in if (65 \<le> n \<and> n \<le> 90) \<or> (192 \<le> n \<and> n \<le> 222 \<and> n \<noteq> 215)
         then char_of (n + 32) else c)"

definition toLowerCase :: "string \<Rightarrow> string" where
  "toLowerCase s = map toLowerCase_char s"

text \<open>\<open>Array.prototype.join\<close>: the elements separated by \<open>sep\<close>; the empty array gives
  the empty string.\<close>

fun join :: "string \<Rightarrow> string list \<Rightarrow> string" where
  "join sep [] = []"
| "join sep [x] = x"
| "join sep (x # y # ys) = x @ sep @ join sep (y # ys)"

text \<open>\<open>s.replace(/\./g, '\\.')\<close>: a backslash (code unit 0x5C) is put in front of every dot.\<close>

definition replace_dots :: "string \<Rightarrow> string" where
  "replace_dots s = concat (map (\<lambda>c. if c = CHR ''.'' then [CHR 0x5C, CHR ''.''] else [c]) s)"

section \<open>Regular expressions\<close>

text \<open>
  The part of the ECMAScript pattern syntax that \<open>hasExtension\<close> builds from an ordinary
  allow-list: pattern characters, an escaped syntax character (backslash followed by a syntax
  character stands for that character), alternation \<open>|\<close>, groups \<open>( )\<close> and the
  end-of-input assertion \<open>$\<close>.
\<close>

datatype regex =
    Chr char
  | Empty
  | Seq regex regex
  | Alt regex regex
  | Group regex
  | AssertEnd

text \<open>The syntax characters of the pattern grammar: \<open>^ $ \ . * + ? ( ) [ ] { } |\<close>.\<close>

definition syntax_char :: "char \<Rightarrow> bool" where
  "syntax_char c \<longleftrightarrow> c \<in> set ''^$.*+?()[]{}|'' \<or> c = CHR 0x5C"

fun seq_of :: "regex list \<Rightarrow> regex" where
  "seq_of [] = Empty"
| "seq_of (r # rs) = Seq r (seq_of rs)"

fun alt_of :: "regex list \<Rightarrow> regex" where
  "alt_of [] = Empty"
| "alt_of [r] = r"
| "alt_of (r # rs) = Alt r (alt_of rs)"

text \<open>
  A frame holds the alternatives of a disjunction that are already complete and the terms of
  the alternative being read. The parser reads the pattern from left to right, with one frame
  per group that is still open. It returns \<open>None\<close> for a pattern that is no pattern of the
  part of the syntax above: there \<open>new RegExp\<close> either throws a \<open>SyntaxError\<close> (unbalanced
  parentheses, for instance) or builds a matcher with operators that are not modelled here.
\<close>

type_synonym frame = "regex list \<times> regex list"

text \<open>The pattern of a literal text: its characters in sequence.\<close>

definition lit :: "string \<Rightarrow> regex" where
  "lit w = seq_of (map Chr w)"

definition close_frame :: "frame \<Rightarrow> regex" where
  "close_frame fr = alt_of (fst fr @ [seq_of (snd fr)])"

fun parse :: "frame \<Rightarrow> frame list \<Rightarrow> string \<Rightarrow> regex option" where
  "parse fr stk [] = (if stk = [] then Some (close_frame fr) else None)"
| "parse fr stk (c # cs) =
     (if c = CHR ''|'' then parse (fst fr @ [seq_of (snd fr)], []) stk cs
      else if c = CHR ''('' then parse ([], []) (fr # stk) cs
      else if c = CHR '')'' then
        (case stk of
           [] \<Rightarrow> None
         | outer # stk' \<Rightarrow> parse (fst outer, snd outer @ [Group (close_frame fr)]) stk' cs)
      else if c = CHR ''$'' then parse (fst fr, snd fr @ [AssertEnd]) stk cs
      else if c = CHR 0x5C then
        (case cs of
           [] \<Rightarrow> None
         | d # ds \<Rightarrow> if syntax_char d then parse (fst fr, snd fr @ [Chr d]) stk ds else None)
      else if syntax_char c then None
      else parse (fst fr, snd fr @ [Chr c]) stk cs)"

definition RegExp :: "string \<Rightarrow> regex option" where
  "RegExp pattern = parse ([], []) [] pattern"

text \<open>
  With the flag \<open>i\<close> two code units match when their canonical forms are equal. The
  canonical form of a unit is its upper case when that is a single unit: a-z and the accented
  small letters U+00E0 to U+00FE (except the division sign U+00F7) move down by 32,
  U+00FF becomes U+0178, U+00B5 becomes U+039C, and every other unit of the range (the
  sharp s too, whose upper case is two units) is its own canonical form.
\<close>

definition canonicalize :: "char \<Rightarrow> nat" where
  "canonicalize c =
     (let n = (of_char c :: nat)
      in if (97 \<le> n \<and> n \<le> 122) \<or> (224 \<le> n \<and> n \<le> 254 \<and> n \<noteq> 247) then n - 32
         else if n = 255 then 376
         else if n = 181 then 924
         else n)"

text \<open>The two ranges of letters of Latin-1, by code unit.\<close>

definition small_letter :: "nat \<Rightarrow> bool" where
  "small_letter n \<longleftrightarrow> (97 \<le> n \<and> n \<le> 122) \<or> (224 \<le> n \<and> n \<le> 254 \<and> n \<noteq> 247)"

definition capital_letter :: "nat \<Rightarrow> bool" where
  "capital_letter n \<longleftrightarrow> (65 \<le> n \<and> n \<le> 90) \<or> (192 \<le> n \<and> n \<le> 222 \<and> n \<noteq> 215)"

text \<open>
  The backtracking matcher, as the list of its successes: \<open>matches r s\<close> holds, in the order
  in which the matcher tries them, the rest of the input left by each way of matching \<open>r\<close> at the
  start of \<open>s\<close>. Without the flag \<open>m\<close> the assertion \<open>$\<close> holds at the end of the input
  only.
\<close>

fun matches :: "regex \<Rightarrow> string \<Rightarrow> string list" where
  "matches (Chr c) s =
     (case s of [] \<Rightarrow> [] | d # t \<Rightarrow> if canonicalize c = canonicalize d then [t] else [])"
| "matches Empty s = [s]"
| "matches (Seq a b) s = concat (map (matches b) (matches a s))"
| "matches (Alt a b) s = matches a s @ matches b s"
| "matches (Group r) s = matches r s"
| "matches AssertEnd s = (if s = [] then [s] else [])"

text \<open>
  \<open>RegExp.prototype.test\<close> without the flags \<open>g\<close> and \<open>y\<close>: the match is tried at index 0,
  then at each later index up to the length of the input.
\<close>

fun test :: "regex \<Rightarrow> string \<Rightarrow> bool" where
  "test r [] = (matches r [] \<noteq> [])"
| "test r (c # s) = (matches r (c # s) \<noteq> [] \<or> test r s)"

section \<open>The extension check\<close>

text \<open>The pattern that \<open>hasExtension\<close> builds from the allow-list.\<close>

definition pattern :: "string list \<Rightarrow> string" where
  "pattern allowedExtensions =
     ''('' @ replace_dots (join ''|'' (map toLowerCase allowedExtensions)) @ '')$''"

text \<open>The result is \<open>None\<close> where the pattern is outside the modelled syntax.\<close>

definition hasExtension :: "string list \<Rightarrow> string \<Rightarrow> bool option" where
  "hasExtension allowedExtensions fileName =
     map_option (\<lambda>r. test r (toLowerCase fileName)) (RegExp (pattern allowedExtensions))"


text \<open>
  What the specification says the check decides: some suffix of the file name equals an entry
  of the allow-list when the case of the letters is ignored.
\<close>

definition equal_ignoring_case :: "string \<Rightarrow> string \<Rightarrow> bool" where
  "equal_ignoring_case a b \<longleftrightarrow> toLowerCase a = toLowerCase b"

definition suffix_allowed :: "string list \<Rightarrow> string \<Rightarrow> bool" where
  "suffix_allowed L F = list_ex (\<lambda>e. list_ex (\<lambda>t. equal_ignoring_case t e) (suffixes F)) L"

text \<open>An entry is plain when the dot is the only syntax character in it.\<close>

definition plain :: "string \<Rightarrow> bool" where
  "plain e = list_all (\<lambda>c. c = CHR ''.'' \<or> \<not> syntax_char c) e"

section \<open>String replacement\<close>

text \<open>
  \<open>String.prototype.replace\<close> with a string to search for and a replacement string: the
  first occurrence is replaced, and the replacement is a template in which \<open>$$\<close> stands for
  a dollar sign, \<open>$&\<close> for the matched text, a dollar sign and a backquote (code unit 0x60)
  for the text in front of the match, and a dollar sign and an apostrophe (code unit 0x27) for the
  text behind it. There are no capture groups here, so a dollar sign followed by anything else
  stands for itself.
\<close>

fun split_first :: "string \<Rightarrow> string \<Rightarrow> (string \<times> string) option" where
  "split_first pat [] = (if pat = [] then Some ([], []) else None)"
| "split_first pat (c # s) =
     (if prefix pat (c # s) then Some ([], drop (length pat) (c # s))
      else map_option (\<lambda>(b, a). (c # b, a)) (split_first pat s))"

fun getSubstitution :: "string \<Rightarrow> string \<Rightarrow> string \<Rightarrow> string \<Rightarrow> string" where
  "getSubstitution matched pre post [] = []"
| "getSubstitution matched pre post [c] = [c]"
| "getSubstitution matched pre post (c # d # t) =
     (if c = CHR ''$'' then
        (if d = CHR ''$'' then CHR ''$'' # getSubstitution matched pre post t
         else if d = CHR ''&'' then matched @ getSubstitution matched pre post t
         else if d = CHR 0x60 then pre @ getSubstitution matched pre post t
         else if d = CHR 0x27 then post @ getSubstitution matched pre post t
         else c # getSubstitution matched pre post (d # t))
      else c # getSubstitution matched pre post (d # t))"

definition replace :: "string \<Rightarrow> string \<Rightarrow> string \<Rightarrow> string" where
  "replace s searchValue replaceValue =
     (case split_first searchValue s of
        None \<Rightarrow> s
      | Some (pre, post) \<Rightarrow>
          pre @ getSubstitution searchValue pre post replaceValue @ post)"

text \<open>
  What the specification says the data URL is: the first occurrence of the marker replaced by
  the given text, taken as it is.
\<close>

definition replace_verbatim :: "string \<Rightarrow> string \<Rightarrow> string \<Rightarrow> string" where
  "replace_verbatim s marker txt =
     (case split_first marker s of
        None \<Rightarrow> s
      | Some (pre, post) \<Rightarrow> pre @ txt @ post)"

section \<open>The component\<close>

definition NO_FILE_ERROR_CODE :: int where "NO_FILE_ERROR_CODE = 1"
definition BAD_EXTENSION_ERROR_CODE :: int where "BAD_EXTENSION_ERROR_CODE = 2"
definition TOO_BIG_ERROR_CODE :: int where "TOO_BIG_ERROR_CODE = 3"
definition UPLOADING_ERROR_CODE :: int where "UPLOADING_ERROR_CODE = 4"

text \<open>A selected file: its name and its size in bytes.\<close>

record File =
  file_name :: string
  file_size :: nat

text \<open>
  The properties. A callback of the embedding application is outside the component: the
  property says whether it is configured, and each invocation is recorded in the world below.
  A callback is taken to return normally, and \<open>imageUpload\<close> to return a promise.
\<close>

record props =
  imageLoaded :: bool
  imageUpload :: bool
  imageUploadError :: bool
  imageUploaded :: bool
  maxFileSize :: int
  allowedExtensions :: "string list"

definition defaultProps :: props where
  "defaultProps =
     \<lparr>imageLoaded = False, imageUpload = False, imageUploadError = False, imageUploaded = False,
      maxFileSize = 5242880, allowedExtensions = [''jpg'', ''jpeg'', ''png'']\<rparr>"

record ImageUploadState =
  isUploading :: bool
  hasError :: bool
  errorText :: string
  progress :: "int option"

text \<open>
  An invocation of a callback, with its arguments. The values that an upload promise is
  fulfilled or rejected with belong to the embedding application; their type is \<open>'v\<close>.
  The second argument of \<open>imageUpload\<close> is always \<open>handleReportProgress\<close> and is left out;
  the upload routine calling it is an event of its own below.
\<close>

datatype 'v call =
    ImageLoaded File string
  | ImageUpload File
  | ImageUploaded 'v
  | ImageUploadError 'v

text \<open>
  The component in its environment: the state of the component, the invocations of the
  callbacks so far (oldest first), the times (in milliseconds) at which the pending timeouts
  are due, the files whose \<open>FileReader\<close> has not loaded yet, the files whose upload promise is
  not settled yet, and the clock.
\<close>

record 'v world =
  state :: ImageUploadState
  calls :: "'v call list"
  timers :: "nat list"
  reads :: "File list"
  uploads :: "File list"
  now :: nat

text \<open>The constructor.\<close>

definition initial :: "'v world" where
  "initial =
     \<lparr>state = \<lparr>isUploading = False, hasError = False, errorText = [], progress = None\<rparr>,
      calls = [], timers = [], reads = [], uploads = [], now = 0\<rparr>"

definition setState :: "(ImageUploadState \<Rightarrow> ImageUploadState) \<Rightarrow> 'v world \<Rightarrow> 'v world" where
  "setState update w = w\<lparr>state := update (state w)\<rparr>"

definition setTimeout :: "nat \<Rightarrow> 'v world \<Rightarrow> 'v world" where
  "setTimeout delay w = w\<lparr>timers := timers w @ [now w + delay]\<rparr>"

text \<open>
  \<open>setState\<close> merges an update into the state; updates are applied in the order of the
  calls. \<open>handleError\<close>: the first \<open>setState\<close>, its callback (the second \<open>setState\<close>,
  which runs once the first update is applied), and the timeout of 5000 ms. The timeout
  touches no field that the updates touch, so it does not matter that it is set before the
  callback runs.
\<close>

definition handleError :: "int \<Rightarrow> 'v world \<Rightarrow> 'v world" where
  "handleError errorCode w =
     (let txt =
            (if errorCode = NO_FILE_ERROR_CODE then ''No file selected''
             else if errorCode = BAD_EXTENSION_ERROR_CODE then ''Bad file type''
             else if errorCode = TOO_BIG_ERROR_CODE then ''Too big''
             else if errorCode = UPLOADING_ERROR_CODE then ''Error while uploading''
             else ''Unknown error'');
          w1 = setState (\<lambda>s. s\<lparr>hasError := True, errorText := txt, isUploading := True\<rparr>) w;
          w2 = setState (\<lambda>s. s\<lparr>isUploading := False\<rparr>) w1
      in setTimeout 5000 w2)"

text \<open>The callback of the timeout.\<close>

definition timeout_callback :: "'v world \<Rightarrow> 'v world" where
  "timeout_callback w = setState (\<lambda>s. s\<lparr>hasError := False, errorText := []\<rparr>) w"

text \<open>\<open>readFile\<close> starts a \<open>FileReader\<close> on the file; its promise is pending until the
  reader loads.\<close>

definition readFile :: "File \<Rightarrow> 'v world \<Rightarrow> 'v world" where
  "readFile f w = w\<lparr>reads := reads w @ [f]\<rparr>"

text \<open>
  \<open>reader.onload\<close>, for the read of \<open>f\<close> with the result \<open>result\<close>: the promise is resolved
  with the file and the data URL, and the handler attached in \<open>handleFileSelected\<close>
  passes both to \<open>imageLoaded\<close>. The reader has no handler for a failed read: then the
  promise stays pending and nothing happens.
\<close>

definition onload :: "File \<Rightarrow> string \<Rightarrow> 'v world \<Rightarrow> 'v world" where
  "onload f result w =
     (let dataUrl = replace result '';base64'' ('';name='' @ file_name f @ '';base64'')
      in w\<lparr>calls := calls w @ [ImageLoaded f dataUrl]\<rparr>)"

definition handleReportProgress :: "int \<Rightarrow> 'v world \<Rightarrow> 'v world" where
  "handleReportProgress n w = setState (\<lambda>s. s\<lparr>progress := Some n\<rparr>) w"

text \<open>The two handlers attached to the upload promise (\<open>then\<close> and \<open>catch\<close>).\<close>

definition upload_then :: "props \<Rightarrow> 'v \<Rightarrow> 'v world \<Rightarrow> 'v world" where
  "upload_then p resp w =
     (let w1 = setState (\<lambda>s. s\<lparr>progress := None, isUploading := False\<rparr>) w
      in if imageUploaded p then w1\<lparr>calls := calls w1 @ [ImageUploaded resp]\<rparr> else w1)"

definition upload_catch :: "props \<Rightarrow> 'v \<Rightarrow> 'v world \<Rightarrow> 'v world" where
  "upload_catch p error w =
     (let w1 = setState (\<lambda>s. s\<lparr>isUploading := False\<rparr>) w
      in if imageUploadError p then w1\<lparr>calls := calls w1 @ [ImageUploadError error]\<rparr> else w1)"

text \<open>
  \<open>handleFileSelected\<close>. The event carries a file or none (\<open>e.target.files\<close> is missing or
  empty). The result is \<open>None\<close> where the pattern of the extension check is outside the
  modelled syntax.
\<close>

definition handleFileSelected :: "props \<Rightarrow> File option \<Rightarrow> 'v world \<Rightarrow> 'v world option" where
  "handleFileSelected p e w =
     (case e of
        None \<Rightarrow> Some (handleError NO_FILE_ERROR_CODE w)
      | Some f \<Rightarrow>
          (case hasExtension (allowedExtensions p) (file_name f) of
             None \<Rightarrow> None
           | Some has \<Rightarrow>
               if \<not> has then Some (handleError BAD_EXTENSION_ERROR_CODE w)
               else if int (file_size f) > maxFileSize p then Some (handleError TOO_BIG_ERROR_CODE w)
               else
                 let w1 = (if imageLoaded p then readFile f w else w);
                     w2 = (if imageUpload p
                           then (setState (\<lambda>s. s\<lparr>isUploading := True\<rparr>) w1)
                                  \<lparr>calls := calls w1 @ [ImageUpload f], uploads := uploads w1 @ [f]\<rparr>
                           else w1)
                 in Some w2))"

section \<open>Events\<close>

text \<open>
  What can happen to the component: the hidden input reports a selection; a reader that is
  still reading loads, with its result; an upload promise that is not settled is fulfilled or
  rejected; the upload routine reports progress; a pending timeout that is due fires; time
  passes. The hidden input is rendered only while \<open>isUploading\<close> is false, and a timeout
  never fires earlier than it is due.
\<close>

datatype 'v event =
    Change "File option"
  | Load nat string
  | Resolve nat 'v
  | Reject nat 'v
  | Progress int
  | Timeout nat
  | Elapse nat

definition remove_nth :: "nat \<Rightarrow> 'a list \<Rightarrow> 'a list" where
  "remove_nth k xs = take k xs @ drop (Suc k) xs"

fun step :: "props \<Rightarrow> 'v event \<Rightarrow> 'v world \<Rightarrow> 'v world option" where
  "step p (Change e) w = (if isUploading (state w) then None else handleFileSelected p e w)"
| "step p (Load k result) w =
     (if k < length (reads w)
      then Some (onload (reads w ! k) result (w\<lparr>reads := remove_nth k (reads w)\<rparr>))
      else None)"
| "step p (Resolve k resp) w =
     (if k < length (uploads w)
      then Some (upload_then p resp (w\<lparr>uploads := remove_nth k (uploads w)\<rparr>))
      else None)"
| "step p (Reject k error) w =
     (if k < length (uploads w)
      then Some (upload_catch p error (w\<lparr>uploads := remove_nth k (uploads w)\<rparr>))
      else None)"
| "step p (Progress n) w = Some (handleReportProgress n w)"
| "step p (Timeout k) w =
     (if k < length (timers w) \<and> timers w ! k \<le> now w
      then Some (timeout_callback (w\<lparr>timers := remove_nth k (timers w)\<rparr>))
      else None)"
| "step p (Elapse d) w = Some (w\<lparr>now := now w + d\<rparr>)"

fun run :: "props \<Rightarrow> 'v event list \<Rightarrow> 'v world \<Rightarrow> 'v world option" where
  "run p [] w = Some w"
| "run p (ev # evs) w = (case step p ev w of None \<Rightarrow> None | Some w' \<Rightarrow> run p evs w')"

section \<open>Counting invocations\<close>

fun is_ImageLoaded :: "'v call \<Rightarrow> bool" where
  "is_ImageLoaded (ImageLoaded f url) = True"
| "is_ImageLoaded c = False"

fun is_ImageUpload :: "'v call \<Rightarrow> bool" where
  "is_ImageUpload (ImageUpload f) = True"
| "is_ImageUpload c = False"

definition loaded_count :: "'v world \<Rightarrow> nat" where
  "loaded_count w = length (filter is_ImageLoaded (calls w))"

definition upload_count :: "'v world \<Rightarrow> nat" where
  "upload_count w = length (filter is_ImageUpload (calls w))"

fun is_Change :: "'v event \<Rightarrow> bool" where
  "is_Change (Change e) = True"
| "is_Change ev = False"

fun is_Resolve :: "'v event \<Rightarrow> bool" where
  "is_Resolve (Resolve k resp) = True"
| "is_Resolve ev = False"

fun is_Progress :: "'v event \<Rightarrow> bool" where
  "is_Progress (Progress n) = True"
| "is_Progress ev = False"

section \<open>Characters\<close>

lemma of_char_lt: "(of_char c :: nat) < 256"
  by (rule of_char_mod_256 [where ?'a = nat, THEN subst]) simp

lemma of_char_toLowerCase_char:
  "(of_char (toLowerCase_char c) :: nat) =
     (let n = of_char c in
      if (65 \<le> n \<and> n \<le> 90) \<or> (192 \<le> n \<and> n \<le> 222 \<and> n \<noteq> 215) then n + 32 else n)"
  by (simp add: toLowerCase_char_def Let_def)

lemma char_eq_of_char: "c = d \<longleftrightarrow> (of_char c :: nat) = of_char d"
  by (simp only: of_char_eq_iff)

lemma syntax_char_code:
  "syntax_char c \<longleftrightarrow> (of_char c :: nat) \<in> {94, 36, 46, 42, 43, 63, 40, 41, 91, 93, 123, 125, 124, 92}"
  unfolding syntax_char_def
  by (simp add: char_eq_of_char [of c])

lemma syntax_char_toLowerCase_char:
  "syntax_char (toLowerCase_char c) \<longleftrightarrow> syntax_char c"
  unfolding syntax_char_code of_char_toLowerCase_char Let_def
  by auto

lemma toLowerCase_char_dot: "toLowerCase_char c = CHR ''.'' \<longleftrightarrow> c = CHR ''.''"
  unfolding char_eq_of_char [of _ "CHR ''.''"] of_char_toLowerCase_char Let_def
  by auto

lemma plain_toLowerCase: "plain (toLowerCase e) = plain e"
  by (simp add: plain_def toLowerCase_def list_all_iff syntax_char_toLowerCase_char toLowerCase_char_dot)

lemma small_letter_down: "small_letter n \<Longrightarrow> capital_letter (n - 32) \<and> 32 \<le> n"
  unfolding small_letter_def capital_letter_def by arith

lemma not_capital_toLowerCase_char: "\<not> capital_letter (of_char (toLowerCase_char c))"
  unfolding of_char_toLowerCase_char Let_def capital_letter_def by (simp split: if_splits)

lemma canonicalize_cases:
  "canonicalize c = (let n = of_char c in
     if small_letter n then n - 32 else if n = 255 then 376 else if n = 181 then 924 else n)"
  by (simp add: canonicalize_def small_letter_def)

lemma canonicalize_range:
  assumes "\<not> capital_letter (of_char c)"
  shows "(small_letter (of_char c) \<and> capital_letter (canonicalize c) \<and> canonicalize c + 32 = of_char c)
       \<or> (\<not> small_letter (of_char c) \<and> \<not> capital_letter (canonicalize c) \<and>
           (canonicalize c = of_char c \<or> (of_char c = (255::nat) \<and> canonicalize c = 376)
             \<or> (of_char c = (181::nat) \<and> canonicalize c = 924)))"
proof (cases "small_letter (of_char c)")
  case True
  then show ?thesis using small_letter_down [OF True] by (simp add: canonicalize_cases Let_def)
next
  case False
  then show ?thesis using assms by (simp add: canonicalize_cases capital_letter_def Let_def)
qed

lemma canonical_forms_inj:
  fixes x y k :: nat
  assumes "(sx \<and> capital_letter k \<and> k + 32 = x)
       \<or> (\<not> sx \<and> \<not> capital_letter k \<and> (k = x \<or> (x = 255 \<and> k = 376) \<or> (x = 181 \<and> k = 924)))"
    and "(sy \<and> capital_letter k \<and> k + 32 = y)
       \<or> (\<not> sy \<and> \<not> capital_letter k \<and> (k = y \<or> (y = 255 \<and> k = 376) \<or> (y = 181 \<and> k = 924)))"
    and "x < 256" "y < 256"
  shows "x = y"
  using assms by (cases "capital_letter k") auto

lemma canonicalize_inj:
  assumes "\<not> capital_letter (of_char a)" "\<not> capital_letter (of_char b)"
    and "canonicalize a = canonicalize b"
  shows "a = b"
proof -
  have "(of_char a :: nat) = of_char b"
    using canonicalize_range [OF assms(1)] canonicalize_range [OF assms(2), folded assms(3)]
      of_char_lt [of a] of_char_lt [of b]
    by (rule canonical_forms_inj)
  then show ?thesis by (simp only: of_char_eq_iff)
qed

lemma canonicalize_toLowerCase_inj:
  assumes "canonicalize (toLowerCase_char a) = canonicalize (toLowerCase_char b)"
  shows "toLowerCase_char a = toLowerCase_char b"
  using canonicalize_inj [OF not_capital_toLowerCase_char not_capital_toLowerCase_char assms] .

lemma map_canonicalize_toLowerCase:
  "map canonicalize (toLowerCase a) = map canonicalize (toLowerCase b) \<longleftrightarrow> toLowerCase a = toLowerCase b"
proof
  assume "map canonicalize (toLowerCase a) = map canonicalize (toLowerCase b)"
  then show "toLowerCase a = toLowerCase b"
  proof (induction a arbitrary: b)
    case Nil
    then show ?case by (simp add: toLowerCase_def)
  next
    case (Cons x xs)
    from Cons.prems obtain y ys where b: "b = y # ys"
      by (cases b) (simp_all add: toLowerCase_def)
    from Cons.prems have hd: "canonicalize (toLowerCase_char x) = canonicalize (toLowerCase_char y)"
      and tl: "map canonicalize (toLowerCase xs) = map canonicalize (toLowerCase ys)"
      by (simp_all add: b toLowerCase_def)
    from canonicalize_toLowerCase_inj [OF hd] Cons.IH [OF tl] show ?case
      by (simp add: b toLowerCase_def)
  qed
next
  assume "toLowerCase a = toLowerCase b"
  then show "map canonicalize (toLowerCase a) = map canonicalize (toLowerCase b)" by simp
qed

subsection \<open>Parsing the pattern of a plain allow-list\<close>

lemma replace_dots_append: "replace_dots (a @ b) = replace_dots a @ replace_dots b"
  by (simp add: replace_dots_def)

lemma replace_dots_bar: "replace_dots (CHR ''|'' # b) = CHR ''|'' # replace_dots b"
  by (simp add: replace_dots_def)

lemma replace_dots_Cons:
  "replace_dots (c # s) = (if c = CHR ''.'' then CHR 0x5C # CHR ''.'' # replace_dots s else c # replace_dots s)"
  by (simp add: replace_dots_def)

lemma syntax_char_literals:
  "syntax_char CHR ''.''" "syntax_char CHR ''|''" "syntax_char CHR ''(''" "syntax_char CHR '')''"
  "syntax_char CHR ''$''" "syntax_char (CHR 0x5C)"
  by (simp_all add: syntax_char_def)

lemma parse_plain:
  "plain w \<Longrightarrow> parse fr stk (replace_dots w @ rest) = parse (fst fr, snd fr @ map Chr w) stk rest"
proof (induction w arbitrary: fr)
  case Nil
  then show ?case by (simp add: replace_dots_def)
next
  case (Cons c w)
  from Cons.prems have w: "plain w" and c: "c = CHR ''.'' \<or> \<not> syntax_char c"
    by (simp_all add: plain_def)
  show ?case
  proof (cases "c = CHR ''.''")
    case True
    then show ?thesis
      using Cons.IH [OF w, of "(fst fr, snd fr @ [Chr c])"]
      by (simp add: replace_dots_Cons syntax_char_literals)
  next
    case False
    with c have nc: "\<not> syntax_char c" by simp
    then have "c \<noteq> CHR ''|''" "c \<noteq> CHR ''(''" "c \<noteq> CHR '')''" "c \<noteq> CHR ''$''" "c \<noteq> CHR 0x5C"
      using syntax_char_literals by auto
    then show ?thesis
      using Cons.IH [OF w, of "(fst fr, snd fr @ [Chr c])"] False nc
      by (simp add: replace_dots_Cons)
  qed
qed

lemma parse_join:
  "ws \<noteq> [] \<Longrightarrow> list_all plain ws \<Longrightarrow>
   parse (alts, []) stk (replace_dots (join ''|'' ws) @ rest) =
   parse (alts @ map lit (butlast ws), map Chr (last ws)) stk rest"
proof (induction "''|''" ws arbitrary: alts rule: join.induct)
  case 1
  then show ?case by simp
next
  case (2 x)
  then show ?case using parse_plain [of x "(alts, [])" stk rest] by simp
next
  case (3 x y ys)
  from "3.prems" have x: "plain x" and r: "list_all plain (y # ys)" by simp_all
  have "parse (alts, []) stk (replace_dots (join ''|'' (x # y # ys)) @ rest) =
        parse (alts, map Chr x) stk (CHR ''|'' # replace_dots (join ''|'' (y # ys)) @ rest)"
    using parse_plain [OF x, of "(alts, [])" stk]
    by (simp add: replace_dots_append replace_dots_bar)
  also have "\<dots> = parse (alts @ [lit x], []) stk (replace_dots (join ''|'' (y # ys)) @ rest)"
    by (simp add: lit_def)
  also have "\<dots> = parse ((alts @ [lit x]) @ map lit (butlast (y # ys)), map Chr (last (y # ys))) stk rest"
    using "3.hyps" [OF _ r] by simp
  finally show ?case by simp
qed

lemma RegExp_plain:
  assumes "ws \<noteq> []" "list_all plain ws"
  shows "RegExp (''('' @ replace_dots (join ''|'' ws) @ '')$'') =
         Some (Seq (Group (alt_of (map lit ws))) (Seq AssertEnd Empty))"
proof -
  have "map lit (butlast ws) @ [lit (last ws)] = map lit ws"
    using assms(1) by (metis append_butlast_last_id map_append list.simps(8,9))
  then show ?thesis
    using parse_join [OF assms, of "[]" "[([], [])]" "'')$''"]
    by (simp add: RegExp_def close_frame_def lit_def)
qed

lemma RegExp_empty: "RegExp ''()$'' = Some (Seq (Group Empty) (Seq AssertEnd Empty))"
  by (simp add: RegExp_def close_frame_def)

subsection \<open>Matching\<close>

lemma matches_lit:
  "matches (lit w) s =
     (if length w \<le> length s \<and> map canonicalize (take (length w) s) = map canonicalize w
      then [drop (length w) s] else [])"
proof (induction w arbitrary: s)
  case Nil
  then show ?case by (simp add: lit_def)
next
  case (Cons c w)
  then show ?case by (cases s) (auto simp: lit_def)
qed

lemma set_matches_alt_of:
  "rs \<noteq> [] \<Longrightarrow> set (matches (alt_of rs) s) = (\<Union>r\<in>set rs. set (matches r s))"
  by (induction rs rule: alt_of.induct) auto

lemma test_iff: "test r s \<longleftrightarrow> (\<exists>t. suffix t s \<and> matches r t \<noteq> [])"
  by (induction s) (auto simp: suffix_Cons)

subsection \<open>The extension check on plain allow-lists\<close>

lemma test_end_anchored:
  "test (Seq (Group r) (Seq AssertEnd Empty)) s \<longleftrightarrow> (\<exists>t. suffix t s \<and> [] \<in> set (matches r t))"
  unfolding test_iff by auto

lemma matches_lit_end:
  "[] \<in> set (matches (lit w) t) \<longleftrightarrow> map canonicalize t = map canonicalize w"
proof (cases "length w \<le> length t \<and> map canonicalize (take (length w) t) = map canonicalize w")
  case True
  then have m: "matches (lit w) t = [drop (length w) t]" by (simp add: matches_lit)
  show ?thesis
  proof
    assume "[] \<in> set (matches (lit w) t)"
    then have "drop (length w) t = []" unfolding m by simp
    then have "take (length w) t = t" by simp
    with True show "map canonicalize t = map canonicalize w" by simp
  next
    assume "map canonicalize t = map canonicalize w"
    then have "length t = length w" by (rule map_eq_imp_length_eq)
    then show "[] \<in> set (matches (lit w) t)" unfolding m by simp
  qed
next
  case False
  then have m: "matches (lit w) t = []" by (simp add: matches_lit)
  have "map canonicalize t \<noteq> map canonicalize w"
  proof
    assume eq: "map canonicalize t = map canonicalize w"
    then have "length t = length w" by (rule map_eq_imp_length_eq)
    then have "take (length w) t = t" "length w \<le> length t" by simp_all
    with eq False show False by simp
  qed
  then show ?thesis unfolding m by simp
qed

lemma suffix_toLowerCase:
  "suffix t (toLowerCase F) \<longleftrightarrow> (\<exists>u. suffix u F \<and> t = toLowerCase u)"
proof
  assume "suffix t (toLowerCase F)"
  then obtain z where "toLowerCase F = z @ t" by (auto simp: suffix_def)
  then have "t = toLowerCase (drop (length z) F)"
    unfolding toLowerCase_def by (metis append_eq_conv_conj drop_map)
  moreover have "suffix (drop (length z) F) F" by (rule suffix_drop)
  ultimately show "\<exists>u. suffix u F \<and> t = toLowerCase u" by blast
next
  assume "\<exists>u. suffix u F \<and> t = toLowerCase u"
  then show "suffix t (toLowerCase F)"
    by (auto simp: suffix_def toLowerCase_def)
qed

lemma suffix_allowed_iff:
  "suffix_allowed L F \<longleftrightarrow> (\<exists>e\<in>set L. \<exists>t. suffix t F \<and> toLowerCase t = toLowerCase e)"
  unfolding suffix_allowed_def list_ex_iff equal_ignoring_case_def
  by (simp add: Bex_def in_set_suffixes)

lemma hasExtension_plain:
  assumes "L \<noteq> []" and "list_all plain L"
  shows "hasExtension L F = Some (suffix_allowed L F)"
proof -
  let ?ws = "map toLowerCase L"
  have ne: "?ws \<noteq> []" using assms(1) by simp
  have pl: "list_all plain ?ws"
    using assms(2) by (simp add: list_all_iff plain_toLowerCase)
  have "test (Seq (Group (alt_of (map lit ?ws))) (Seq AssertEnd Empty)) (toLowerCase F)
        \<longleftrightarrow> (\<exists>t. suffix t (toLowerCase F) \<and> (\<exists>w\<in>set ?ws. map canonicalize t = map canonicalize w))"
    using ne by (simp add: test_end_anchored set_matches_alt_of matches_lit_end)
  also have "\<dots> \<longleftrightarrow> (\<exists>u. suffix u F \<and> (\<exists>e\<in>set L. toLowerCase u = toLowerCase e))"
    (is "?A \<longleftrightarrow> ?B")
  proof
    assume ?A
    then obtain t w where t: "suffix t (toLowerCase F)" and w: "w \<in> set ?ws"
      and eq: "map canonicalize t = map canonicalize w" by blast
    from t obtain u where u: "suffix u F" "t = toLowerCase u"
      unfolding suffix_toLowerCase by blast
    from w obtain e where e: "e \<in> set L" "w = toLowerCase e" by auto
    from eq have "toLowerCase u = toLowerCase e"
      unfolding u(2) e(2) map_canonicalize_toLowerCase .
    with u(1) e(1) show ?B by blast
  next
    assume ?B
    then obtain u e where u: "suffix u F" and e: "e \<in> set L"
      and eq: "toLowerCase u = toLowerCase e" by blast
    from u have "suffix (toLowerCase u) (toLowerCase F)"
      unfolding suffix_toLowerCase by blast
    moreover from e have "toLowerCase e \<in> set ?ws" by simp
    moreover from eq have "map canonicalize (toLowerCase u) = map canonicalize (toLowerCase e)"
      by simp
    ultimately show ?A by blast
  qed
  also have "\<dots> \<longleftrightarrow> suffix_allowed L F"
    by (auto simp: suffix_allowed_iff)
  finally have t: "test (Seq (Group (alt_of (map lit ?ws))) (Seq AssertEnd Empty)) (toLowerCase F)
        \<longleftrightarrow> suffix_allowed L F" .
  show ?thesis
    by (simp only: hasExtension_def pattern_def RegExp_plain [OF ne pl] option.map t)
qed

lemma test_empty_group: "test (Seq (Group Empty) (Seq AssertEnd Empty)) s"
  by (induction s) simp_all

lemma pattern_Nil: "pattern [] = ''()$''"
  by (simp add: pattern_def replace_dots_def)

lemma hasExtension_Nil: "hasExtension [] F = Some True"
  by (simp only: hasExtension_def pattern_Nil RegExp_empty option.map test_empty_group)

section \<open>What the handlers change\<close>

lemma handleError_state:
  "state (handleError c w) =
     (state w)\<lparr>hasError := True,
       errorText :=
         (if c = 1 then ''No file selected'' else if c = 2 then ''Bad file type''
          else if c = 3 then ''Too big'' else if c = 4 then ''Error while uploading''
          else ''Unknown error''),
       isUploading := False\<rparr>"
  by (simp add: handleError_def setState_def setTimeout_def Let_def NO_FILE_ERROR_CODE_def
      BAD_EXTENSION_ERROR_CODE_def TOO_BIG_ERROR_CODE_def UPLOADING_ERROR_CODE_def)

lemma handleError_rest:
  "timers (handleError c w) = timers w @ [now w + 5000]"
  "calls (handleError c w) = calls w"
  "reads (handleError c w) = reads w"
  "uploads (handleError c w) = uploads w"
  "now (handleError c w) = now w"
  by (simp_all add: handleError_def setState_def setTimeout_def Let_def)

lemma handleError_codes_neq:
  "handleError 2 w \<noteq> handleError 3 w"
proof
  assume "handleError 2 w = handleError 3 w"
  then have "errorText (state (handleError 2 w)) = errorText (state (handleError 3 w))" by simp
  then show False by (simp add: handleError_state)
qed

lemma upload_catch_simps:
  "state (upload_catch p v w) = (state w)\<lparr>isUploading := False\<rparr>"
  "calls (upload_catch p v w) = calls w @ (if imageUploadError p then [ImageUploadError v] else [])"
  "timers (upload_catch p v w) = timers w"
  "reads (upload_catch p v w) = reads w"
  "uploads (upload_catch p v w) = uploads w"
  "now (upload_catch p v w) = now w"
  by (simp_all add: upload_catch_def setState_def Let_def)

lemma upload_then_simps:
  "state (upload_then p r w) = (state w)\<lparr>progress := None, isUploading := False\<rparr>"
  "calls (upload_then p r w) = calls w @ (if imageUploaded p then [ImageUploaded r] else [])"
  "timers (upload_then p r w) = timers w"
  "reads (upload_then p r w) = reads w"
  "uploads (upload_then p r w) = uploads w"
  "now (upload_then p r w) = now w"
  by (simp_all add: upload_then_def setState_def Let_def)

lemma onload_simps:
  "state (onload f result w) = state w"
  "calls (onload f result w) =
     calls w @ [ImageLoaded f (replace result '';base64'' ('';name='' @ file_name f @ '';base64''))]"
  "timers (onload f result w) = timers w"
  "reads (onload f result w) = reads w"
  "uploads (onload f result w) = uploads w"
  "now (onload f result w) = now w"
  by (simp_all add: onload_def Let_def)

lemma handleReportProgress_simps:
  "state (handleReportProgress n w) = (state w)\<lparr>progress := Some n\<rparr>"
  "calls (handleReportProgress n w) = calls w"
  "timers (handleReportProgress n w) = timers w"
  "reads (handleReportProgress n w) = reads w"
  "uploads (handleReportProgress n w) = uploads w"
  "now (handleReportProgress n w) = now w"
  by (simp_all add: handleReportProgress_def setState_def)

lemma timeout_callback_simps:
  "state (timeout_callback w) = (state w)\<lparr>hasError := False, errorText := []\<rparr>"
  "calls (timeout_callback w) = calls w"
  "timers (timeout_callback w) = timers w"
  "reads (timeout_callback w) = reads w"
  "uploads (timeout_callback w) = uploads w"
  "now (timeout_callback w) = now w"
  by (simp_all add: timeout_callback_def setState_def)

text \<open>The branch of \<open>handleFileSelected\<close> for a file that passes both checks.\<close>

lemma handleFileSelected_valid:
  assumes "hasExtension (allowedExtensions p) (file_name f) = Some True"
    and "\<not> maxFileSize p < int (file_size f)"
  shows "handleFileSelected p (Some f) w =
     Some (let w1 = (if imageLoaded p then readFile f w else w)
           in if imageUpload p
              then (setState (\<lambda>s. s\<lparr>isUploading := True\<rparr>) w1)
                     \<lparr>calls := calls w1 @ [ImageUpload f], uploads := uploads w1 @ [f]\<rparr>
              else w1)"
  using assms by (simp add: handleFileSelected_def Let_def)

lemma handleFileSelected_valid_timers:
  assumes "hasExtension (allowedExtensions p) (file_name f) = Some True"
    and "\<not> maxFileSize p < int (file_size f)"
    and "handleFileSelected p (Some f) w = Some w'"
  shows "timers w' = timers w"
  using assms(3) unfolding handleFileSelected_valid [OF assms(1,2)]
  by (auto simp: Let_def readFile_def setState_def)

lemma handleFileSelected_too_big:
  assumes "hasExtension (allowedExtensions p) (file_name f) = Some True"
    and "maxFileSize p < int (file_size f)"
  shows "handleFileSelected p (Some f) w = Some (handleError 3 w)"
  using assms by (simp add: handleFileSelected_def TOO_BIG_ERROR_CODE_def)

lemma handleFileSelected_bad_extension:
  assumes "hasExtension (allowedExtensions p) (file_name f) = Some False"
  shows "handleFileSelected p (Some f) w = Some (handleError 2 w)"
  using assms by (simp add: handleFileSelected_def BAD_EXTENSION_ERROR_CODE_def)

lemma handleFileSelected_no_file:
  "handleFileSelected p None w = Some (handleError 1 w)"
  by (simp add: handleFileSelected_def NO_FILE_ERROR_CODE_def)

section \<open>The extension check and the allow-list\<close>

text \<open>
  C1, as stated, fails: with the empty allow-list the check accepts \<open>photo.gif\<close>, although
  no suffix of the name matches an entry of the list (there is no entry).
\<close>

theorem hasExtension_empty_list_counterexample:
  "hasExtension [] ''photo.gif'' = Some True \<and> \<not> suffix_allowed [] ''photo.gif''"
  by (simp add: hasExtension_Nil suffix_allowed_def)

text \<open>
  C1, amended: for every allow-list that is not empty and whose entries have no syntax
  character of the pattern language other than the dot, and for every file name, the
  extension check accepts the name if and only if some suffix of the name equals an entry of
  the list when the case of the letters is ignored; a file whose name is not accepted is
  rejected with error code 2.
\<close>

theorem hasExtension_iff_suffix_allowed:
  assumes "allowedExtensions p \<noteq> []" and "list_all plain (allowedExtensions p)"
  shows "hasExtension (allowedExtensions p) (file_name f) =
           Some (suffix_allowed (allowedExtensions p) (file_name f))
       \<and> (\<not> suffix_allowed (allowedExtensions p) (file_name f) \<longrightarrow>
            handleFileSelected p (Some f) w = Some (handleError BAD_EXTENSION_ERROR_CODE w))
       \<and> BAD_EXTENSION_ERROR_CODE = 2"
proof -
  have h: "hasExtension (allowedExtensions p) (file_name f) =
           Some (suffix_allowed (allowedExtensions p) (file_name f))"
    using assms by (rule hasExtension_plain)
  then have "\<not> suffix_allowed (allowedExtensions p) (file_name f) \<Longrightarrow>
      handleFileSelected p (Some f) w = Some (handleError BAD_EXTENSION_ERROR_CODE w)"
    by (simp add: handleFileSelected_bad_extension BAD_EXTENSION_ERROR_CODE_def)
  with h show ?thesis by (simp add: BAD_EXTENSION_ERROR_CODE_def)
qed

lemma plain_jpg_png: "list_all plain [''jpg'', ''png'']"
  by (simp add: plain_def syntax_char_def)

lemma suffix_allowed_examples:
  "suffix_allowed [''jpg'', ''png''] ''Photo.PNG''"
  "\<not> suffix_allowed [''jpg'', ''png''] ''photo.gif''"
  by code_simp+

theorem hasExtension_iff_suffix_allowed_witness:
  "[''jpg'', ''png''] \<noteq> [] \<and> list_all plain [''jpg'', ''png'']
   \<and> hasExtension [''jpg'', ''png''] ''Photo.PNG'' = Some True
   \<and> hasExtension [''jpg'', ''png''] ''photo.gif'' = Some False
   \<and> handleFileSelected (defaultProps\<lparr>allowedExtensions := [''jpg'', ''png'']\<rparr>)
         (Some \<lparr>file_name = ''photo.gif'', file_size = 1024\<rparr>) (initial :: unit world)
       = Some (handleError 2 initial)"
proof -
  let ?p = "defaultProps\<lparr>allowedExtensions := [''jpg'', ''png'']\<rparr>"
  have ne: "allowedExtensions ?p \<noteq> []" by simp
  have pl: "list_all plain (allowedExtensions ?p)" using plain_jpg_png by simp
  have a: "hasExtension [''jpg'', ''png''] ''Photo.PNG'' = Some True"
    using hasExtension_iff_suffix_allowed [OF ne pl, of "\<lparr>file_name = ''Photo.PNG'', file_size = 1024\<rparr>"]
    by (simp add: suffix_allowed_examples)
  have b: "hasExtension [''jpg'', ''png''] ''photo.gif'' = Some False
      \<and> handleFileSelected ?p (Some \<lparr>file_name = ''photo.gif'', file_size = 1024\<rparr>) (initial :: unit world)
       = Some (handleError 2 initial)"
    using hasExtension_iff_suffix_allowed [OF ne pl, of "\<lparr>file_name = ''photo.gif'', file_size = 1024\<rparr>" initial]
    by (simp add: suffix_allowed_examples BAD_EXTENSION_ERROR_CODE_def)
  from a b plain_jpg_png show ?thesis by simp
qed

text \<open>
  The entries are not escaped, except for their dots: an entry with another syntax character is
  read as a pattern, not as a text. The single entry \<open>jpg|png\<close> accepts \<open>a.png\<close>, of which
  it is no suffix.
\<close>

lemma hasExtension_entry_with_bar:
  "hasExtension [''jpg|png''] ''a.png'' = Some True \<and> \<not> suffix_allowed [''jpg|png''] ''a.png''"
  by code_simp

section \<open>The size check\<close>

lemma hasExtension_default_png:
  "hasExtension (allowedExtensions defaultProps) ''cat.png'' = Some True"
proof -
  have "list_all plain (allowedExtensions defaultProps)"
    by (simp add: defaultProps_def plain_def syntax_char_def)
  moreover have "allowedExtensions defaultProps \<noteq> []" by (simp add: defaultProps_def)
  moreover have "suffix_allowed (allowedExtensions defaultProps) ''cat.png''"
    unfolding defaultProps_def by code_simp
  ultimately show ?thesis by (simp add: hasExtension_plain)
qed

lemma hasExtension_default_gif:
  "hasExtension (allowedExtensions defaultProps) ''photo.gif'' = Some False"
proof -
  have "list_all plain (allowedExtensions defaultProps)"
    by (simp add: defaultProps_def plain_def syntax_char_def)
  moreover have "allowedExtensions defaultProps \<noteq> []" by (simp add: defaultProps_def)
  moreover have "\<not> suffix_allowed (allowedExtensions defaultProps) ''photo.gif''"
    unfolding defaultProps_def by code_simp
  ultimately show ?thesis by (simp add: hasExtension_plain)
qed

text \<open>
  C2, as stated, fails: with the default properties a file \<open>photo.gif\<close> of 6000000 bytes is
  larger than the maximum, and it is rejected with code 2, not with code 3, since the extension
  is checked first.
\<close>

theorem too_big_bad_extension_counterexample:
  "maxFileSize defaultProps < int (file_size \<lparr>file_name = ''photo.gif'', file_size = 6000000\<rparr>)
   \<and> handleFileSelected defaultProps (Some \<lparr>file_name = ''photo.gif'', file_size = 6000000\<rparr>)
        (initial :: unit world) = Some (handleError BAD_EXTENSION_ERROR_CODE initial)
   \<and> handleFileSelected defaultProps (Some \<lparr>file_name = ''photo.gif'', file_size = 6000000\<rparr>)
        (initial :: unit world) \<noteq> Some (handleError TOO_BIG_ERROR_CODE initial)"
  using handleError_codes_neq [of "initial :: unit world"]
  by (simp add: handleFileSelected_bad_extension hasExtension_default_gif
      BAD_EXTENSION_ERROR_CODE_def TOO_BIG_ERROR_CODE_def)
    (simp add: defaultProps_def)

text \<open>
  C2, amended: for every selected file whose name passes the extension check, of byte size S,
  and every configured maximum M, validation rejects the file with error code 3 if and only if
  S > M; a file with S \<le> M (so also S = M) raises no error at all.
\<close>

theorem too_big_iff:
  assumes "hasExtension (allowedExtensions p) (file_name f) = Some True"
  shows "(handleFileSelected p (Some f) w = Some (handleError TOO_BIG_ERROR_CODE w)
            \<longleftrightarrow> maxFileSize p < int (file_size f))
       \<and> (\<not> maxFileSize p < int (file_size f) \<longrightarrow>
            (\<forall>c. handleFileSelected p (Some f) w \<noteq> Some (handleError c w)))
       \<and> TOO_BIG_ERROR_CODE = 3"
proof (cases "maxFileSize p < int (file_size f)")
  case True
  then show ?thesis
    using handleFileSelected_too_big [OF assms True, of w] by (simp add: TOO_BIG_ERROR_CODE_def)
next
  case False
  have "handleFileSelected p (Some f) w \<noteq> Some (handleError c w)" for c
  proof
    assume eq: "handleFileSelected p (Some f) w = Some (handleError c w)"
    from handleFileSelected_valid_timers [OF assms False eq]
    show False by (simp add: handleError_rest)
  qed
  with False show ?thesis by (simp add: TOO_BIG_ERROR_CODE_def)
qed

theorem too_big_iff_witness:
  "hasExtension (allowedExtensions defaultProps) ''cat.png'' = Some True
   \<and> handleFileSelected defaultProps (Some \<lparr>file_name = ''cat.png'', file_size = 6000000\<rparr>)
        (initial :: unit world) = Some (handleError 3 initial)
   \<and> handleFileSelected defaultProps (Some \<lparr>file_name = ''cat.png'', file_size = 5242880\<rparr>)
        (initial :: unit world) \<noteq> Some (handleError 3 initial)"
proof -
  have big: "maxFileSize defaultProps < int 6000000" and eq: "\<not> maxFileSize defaultProps < int 5242880"
    by (simp_all add: defaultProps_def)
  show ?thesis
    using too_big_iff [of defaultProps "\<lparr>file_name = ''cat.png'', file_size = 6000000\<rparr>" "initial :: unit world"]
      too_big_iff [of defaultProps "\<lparr>file_name = ''cat.png'', file_size = 5242880\<rparr>" "initial :: unit world"]
      big eq
    by (simp add: hasExtension_default_png)
qed

section \<open>The error reporter\<close>

text \<open>
  C4: the text that \<open>handleError\<close> puts into the state is "No file selected" for code 1, "Bad
  file type" for code 2, "Too big" for code 3, "Error while uploading" for code 4 and
  "Unknown error" for every other code; \<open>handleError\<close> is defined for every code.
\<close>

theorem handleError_text:
  "NO_FILE_ERROR_CODE = 1 \<and> BAD_EXTENSION_ERROR_CODE = 2 \<and> TOO_BIG_ERROR_CODE = 3
   \<and> UPLOADING_ERROR_CODE = 4
   \<and> errorText (state (handleError 1 w)) = ''No file selected''
   \<and> errorText (state (handleError 2 w)) = ''Bad file type''
   \<and> errorText (state (handleError 3 w)) = ''Too big''
   \<and> errorText (state (handleError 4 w)) = ''Error while uploading''
   \<and> (c \<notin> {1, 2, 3, 4} \<longrightarrow> errorText (state (handleError c w)) = ''Unknown error'')"
  by (simp add: handleError_state NO_FILE_ERROR_CODE_def BAD_EXTENSION_ERROR_CODE_def
      TOO_BIG_ERROR_CODE_def UPLOADING_ERROR_CODE_def)

theorem handleError_text_witness:
  "(7::int) \<notin> {1, 2, 3, 4} \<and> errorText (state (handleError 7 (initial :: unit world))) = ''Unknown error''
   \<and> errorText (state (handleError 0 (initial :: unit world))) = ''Unknown error''"
  using handleError_text [of "initial :: unit world" 7] handleError_text [of "initial :: unit world" 0]
  by simp

section \<open>A selection without a file\<close>

text \<open>
  C7: for a selection event that carries no file the component raises error code 1, whatever
  the properties are, and it invokes no callback and starts neither a read nor an upload.
\<close>

theorem no_file_selected:
  "handleFileSelected p None w = Some (handleError NO_FILE_ERROR_CODE w)
   \<and> NO_FILE_ERROR_CODE = 1
   \<and> hasError (state (handleError NO_FILE_ERROR_CODE w))
   \<and> errorText (state (handleError NO_FILE_ERROR_CODE w)) = ''No file selected''
   \<and> calls (handleError NO_FILE_ERROR_CODE w) = calls w
   \<and> reads (handleError NO_FILE_ERROR_CODE w) = reads w
   \<and> uploads (handleError NO_FILE_ERROR_CODE w) = uploads w"
  by (simp add: handleFileSelected_no_file handleError_state handleError_rest NO_FILE_ERROR_CODE_def)

section \<open>The empty allow-list\<close>

text \<open>
  C9: the pattern built from the empty allow-list is \<open>()$\<close>; it matches every string, so the
  extension check accepts every file name, and under an empty allow-list no file is rejected
  with error code 2.
\<close>

theorem empty_allow_list_accepts_all:
  "pattern [] = ''()$''
   \<and> (\<exists>r. RegExp (pattern []) = Some r \<and> (\<forall>s. test r s))
   \<and> hasExtension [] F = Some True
   \<and> handleFileSelected (p\<lparr>allowedExtensions := []\<rparr>) (Some f) w
        \<noteq> Some (handleError BAD_EXTENSION_ERROR_CODE w)"
proof -
  let ?p = "p\<lparr>allowedExtensions := []\<rparr>"
  have h: "hasExtension (allowedExtensions ?p) (file_name f) = Some True"
    by (simp add: hasExtension_Nil)
  have "handleFileSelected ?p (Some f) w \<noteq> Some (handleError 2 w)"
  proof (cases "maxFileSize ?p < int (file_size f)")
    case True
    show ?thesis
      unfolding handleFileSelected_too_big [OF h True]
      using handleError_codes_neq [of w] by simp
  next
    case False
    show ?thesis
    proof
      assume eq: "handleFileSelected ?p (Some f) w = Some (handleError 2 w)"
      from handleFileSelected_valid_timers [OF h False eq]
      show False by (simp add: handleError_rest)
    qed
  qed
  moreover have "\<exists>r. RegExp (pattern []) = Some r \<and> (\<forall>s. test r s)"
    unfolding pattern_Nil RegExp_empty using test_empty_group by blast
  ultimately show ?thesis
    by (simp only: pattern_Nil hasExtension_Nil BAD_EXTENSION_ERROR_CODE_def simp_thms)
qed

section \<open>The file name in the data URL\<close>

text \<open>
  C3: the code does not do what the claim (and the comment in \<open>readFile\<close>) says for a file
  name with a dollar sign in front of \<open>$\<close>, \<open>&\<close>, a backquote or an apostrophe, since
  \<open>replace\<close> reads its second argument as a template. For the file \<open>cash$$.png\<close> and the
  result \<open>data:image/png;base64,AAA\<close> the data URL passed to \<open>imageLoaded\<close> names the file
  \<open>cash$.png\<close>; the claim asks for \<open>cash$$.png\<close>.
\<close>

theorem onload_dollar_name:
  "calls (onload \<lparr>file_name = ''cash$$.png'', file_size = 3\<rparr> ''data:image/png;base64,AAA''
            (initial :: unit world))
     = [ImageLoaded \<lparr>file_name = ''cash$$.png'', file_size = 3\<rparr>
          ''data:image/png;name=cash$.png;base64,AAA'']
   \<and> replace_verbatim ''data:image/png;base64,AAA'' '';base64''
         ('';name='' @ ''cash$$.png'' @ '';base64'')
     = ''data:image/png;name=cash$$.png;base64,AAA''"
  by (simp add: onload_def initial_def replace_def replace_verbatim_def)

text \<open>For a file name without a dollar sign the data URL is as the claim says.\<close>

lemma getSubstitution_no_dollar:
  "CHR ''$'' \<notin> set t \<Longrightarrow> getSubstitution m b a t = t"
  by (induction m b a t rule: getSubstitution.induct) auto

lemma onload_without_dollar:
  assumes "CHR ''$'' \<notin> set (file_name f)"
  shows "onload f result w =
     w\<lparr>calls := calls w @
        [ImageLoaded f (replace_verbatim result '';base64'' ('';name='' @ file_name f @ '';base64''))]\<rparr>"
proof -
  have "CHR ''$'' \<notin> set ('';name='' @ file_name f @ '';base64'')"
    using assms by simp
  then have sub: "getSubstitution m b a ('';name='' @ file_name f @ '';base64'')
      = '';name='' @ file_name f @ '';base64''" for m b a
    by (rule getSubstitution_no_dollar)
  show ?thesis
    unfolding onload_def replace_def replace_verbatim_def Let_def sub by (rule refl)
qed

lemma onload_cat_png:
  "calls (onload \<lparr>file_name = ''cat.png'', file_size = 3\<rparr> ''data:image/png;base64,AAA''
            (initial :: unit world))
     = [ImageLoaded \<lparr>file_name = ''cat.png'', file_size = 3\<rparr>
          ''data:image/png;name=cat.png;base64,AAA'']"
  by (simp add: onload_def initial_def replace_def)

section \<open>A rejected upload\<close>

text \<open>
  C6: when an upload promise that is not settled rejects with a value \<open>v\<close>, the callback
  \<open>imageUploadError\<close> (when it is configured) is invoked once, with \<open>v\<close> itself, the promise
  is no longer outstanding, \<open>isUploading\<close> is false afterwards, and neither \<open>hasError\<close> nor
  \<open>errorText\<close> changes and no timeout is set.
\<close>

theorem upload_rejected:
  assumes "k < length (uploads w)"
  shows "\<exists>w'. step p (Reject k v) w = Some w'
      \<and> calls w' = calls w @ (if imageUploadError p then [ImageUploadError v] else [])
      \<and> uploads w' = remove_nth k (uploads w)
      \<and> \<not> isUploading (state w')
      \<and> hasError (state w') = hasError (state w)
      \<and> errorText (state w') = errorText (state w)
      \<and> timers w' = timers w"
  using assms by (simp add: upload_catch_simps)

theorem upload_rejected_witness:
  "(0::nat) < length (uploads ((initial :: string world)
        \<lparr>state := (state (initial :: string world))\<lparr>isUploading := True\<rparr>,
         uploads := [\<lparr>file_name = ''cat.png'', file_size = 3\<rparr>]\<rparr>))
   \<and> map_option calls
        (step (defaultProps\<lparr>imageUploadError := True\<rparr>) (Reject 0 ''network down'')
          ((initial :: string world)
            \<lparr>state := (state (initial :: string world))\<lparr>isUploading := True\<rparr>,
             uploads := [\<lparr>file_name = ''cat.png'', file_size = 3\<rparr>]\<rparr>))
       = Some [ImageUploadError ''network down'']
   \<and> map_option (isUploading \<circ> state)
        (step (defaultProps\<lparr>imageUploadError := True\<rparr>) (Reject 0 ''network down'')
          ((initial :: string world)
            \<lparr>state := (state (initial :: string world))\<lparr>isUploading := True\<rparr>,
             uploads := [\<lparr>file_name = ''cat.png'', file_size = 3\<rparr>]\<rparr>))
       = Some False"
proof -
  let ?w = "(initial :: string world)
        \<lparr>state := (state (initial :: string world))\<lparr>isUploading := True\<rparr>,
         uploads := [\<lparr>file_name = ''cat.png'', file_size = 3\<rparr>]\<rparr>"
  have k: "0 < length (uploads ?w)" by simp
  from upload_rejected [OF k, of "defaultProps\<lparr>imageUploadError := True\<rparr>" "''network down''"]
  obtain w' where "step (defaultProps\<lparr>imageUploadError := True\<rparr>) (Reject 0 ''network down'') ?w = Some w'"
    and "calls w' = calls ?w @ [ImageUploadError ''network down'']"
    and "\<not> isUploading (state w')"
    by auto
  then show ?thesis using k by (simp add: initial_def)
qed

section \<open>Both callbacks on a valid selection\<close>

lemma length_remove_nth: "k < length xs \<Longrightarrow> length (remove_nth k xs) = length xs - 1"
  by (simp add: remove_nth_def)

lemma step_counts:
  assumes "\<not> is_Change ev" and "step p ev w = Some w'"
  shows "upload_count w' = upload_count w
       \<and> loaded_count w' + length (reads w') = loaded_count w + length (reads w)"
proof (cases ev)
  case (Change e)
  with assms(1) show ?thesis by simp
next
  case (Load k result)
  with assms(2) have k: "k < length (reads w)"
    and w': "w' = onload (reads w ! k) result (w\<lparr>reads := remove_nth k (reads w)\<rparr>)"
    by (simp_all split: if_splits)
  from k show ?thesis
    by (simp add: w' upload_count_def loaded_count_def onload_simps length_remove_nth)
next
  case (Resolve k resp)
  with assms(2) have "w' = upload_then p resp (w\<lparr>uploads := remove_nth k (uploads w)\<rparr>)"
    by (simp split: if_splits)
  then show ?thesis
    by (simp add: upload_count_def loaded_count_def upload_then_simps)
next
  case (Reject k error)
  with assms(2) have "w' = upload_catch p error (w\<lparr>uploads := remove_nth k (uploads w)\<rparr>)"
    by (simp split: if_splits)
  then show ?thesis
    by (simp add: upload_count_def loaded_count_def upload_catch_simps)
next
  case (Progress n)
  with assms(2) show ?thesis
    by (auto simp: upload_count_def loaded_count_def handleReportProgress_simps)
next
  case (Timeout k)
  with assms(2) have "w' = timeout_callback (w\<lparr>timers := remove_nth k (timers w)\<rparr>)"
    by (simp split: if_splits)
  then show ?thesis
    by (simp add: upload_count_def loaded_count_def timeout_callback_simps)
next
  case (Elapse d)
  with assms(2) show ?thesis
    by (auto simp: upload_count_def loaded_count_def)
qed

lemma run_counts:
  assumes "list_all (\<lambda>ev. \<not> is_Change ev) evs" and "run p evs w = Some w'"
  shows "upload_count w' = upload_count w
       \<and> loaded_count w' + length (reads w') = loaded_count w + length (reads w)"
  using assms
proof (induction evs arbitrary: w)
  case Nil
  then show ?case by simp
next
  case (Cons ev evs)
  from Cons.prems(2) obtain w1 where s: "step p ev w = Some w1" and r: "run p evs w1 = Some w'"
    by (auto split: option.splits)
  from Cons.prems(1) have ev: "\<not> is_Change ev" and evs: "list_all (\<lambda>ev. \<not> is_Change ev) evs"
    by simp_all
  from step_counts [OF ev s] Cons.IH [OF evs r] show ?case by simp
qed

text \<open>
  C5: for a valid selection with \<open>imageLoaded\<close> and \<open>imageUpload\<close> configured,
  \<open>imageUpload\<close> is invoked once, in the handler itself, and one read is started; the load
  of that read can happen while the upload is still outstanding (\<open>isUploading\<close> is true and
  the promise is not settled), and it invokes \<open>imageLoaded\<close> once; whatever happens
  afterwards, short of another selection, there is exactly one more invocation of
  \<open>imageUpload\<close> than before the selection, and the invocations of \<open>imageLoaded\<close>
  together with the reads still in flight are exactly one more than before.
\<close>

theorem valid_selection_invokes_both_once:
  assumes "hasExtension (allowedExtensions p) (file_name f) = Some True"
    and "\<not> maxFileSize p < int (file_size f)"
    and "imageLoaded p" and "imageUpload p"
  shows "\<exists>w'. handleFileSelected p (Some f) w = Some w'
      \<and> calls w' = calls w @ [ImageUpload f]
      \<and> reads w' = reads w @ [f]
      \<and> uploads w' = uploads w @ [f]
      \<and> isUploading (state w')
      \<and> (\<forall>result. \<exists>w''. step p (Load (length (reads w)) result) w' = Some w''
            \<and> calls w'' = calls w' @
                [ImageLoaded f (replace result '';base64'' ('';name='' @ file_name f @ '';base64''))]
            \<and> reads w'' = reads w \<and> uploads w'' = uploads w' \<and> isUploading (state w''))
      \<and> (\<forall>evs w''. list_all (\<lambda>ev. \<not> is_Change ev) evs \<and> run p evs w' = Some w'' \<longrightarrow>
            upload_count w'' = upload_count w + 1
            \<and> loaded_count w'' + length (reads w'') = loaded_count w + length (reads w) + 1)"
proof -
  define w' where "w' = (setState (\<lambda>s. s\<lparr>isUploading := True\<rparr>) (readFile f w))
       \<lparr>calls := calls (readFile f w) @ [ImageUpload f], uploads := uploads (readFile f w) @ [f]\<rparr>"
  have h: "handleFileSelected p (Some f) w = Some w'"
    unfolding handleFileSelected_valid [OF assms(1,2)] w'_def using assms(3,4) by (simp add: Let_def)
  have c: "calls w' = calls w @ [ImageUpload f]" and r: "reads w' = reads w @ [f]"
    and u: "uploads w' = uploads w @ [f]" and i: "isUploading (state w')"
    by (simp_all add: w'_def readFile_def setState_def)
  have l: "\<exists>w''. step p (Load (length (reads w)) result) w' = Some w''
            \<and> calls w'' = calls w' @
                [ImageLoaded f (replace result '';base64'' ('';name='' @ file_name f @ '';base64''))]
            \<and> reads w'' = reads w \<and> uploads w'' = uploads w' \<and> isUploading (state w'')" for result
    using i by (simp add: r onload_simps remove_nth_def)
  have n: "upload_count w'' = upload_count w + 1
        \<and> loaded_count w'' + length (reads w'') = loaded_count w + length (reads w) + 1"
    if "list_all (\<lambda>ev. \<not> is_Change ev) evs" and "run p evs w' = Some w''" for evs w''
    using run_counts [OF that] by (simp add: upload_count_def loaded_count_def c r)
  from h c r u i l n show ?thesis by blast
qed

theorem valid_selection_invokes_both_once_witness:
  "hasExtension (allowedExtensions (defaultProps\<lparr>imageLoaded := True, imageUpload := True\<rparr>)) ''cat.png''
     = Some True
   \<and> \<not> maxFileSize (defaultProps\<lparr>imageLoaded := True, imageUpload := True\<rparr>) < int 3
   \<and> map_option upload_count
       (run (defaultProps\<lparr>imageLoaded := True, imageUpload := True\<rparr>)
          [Change (Some \<lparr>file_name = ''cat.png'', file_size = 3\<rparr>),
           Load 0 ''data:image/png;base64,AAA'', Resolve 0 ''done'']
          (initial :: string world)) = Some 1
   \<and> map_option loaded_count
       (run (defaultProps\<lparr>imageLoaded := True, imageUpload := True\<rparr>)
          [Change (Some \<lparr>file_name = ''cat.png'', file_size = 3\<rparr>),
           Load 0 ''data:image/png;base64,AAA'', Resolve 0 ''done'']
          (initial :: string world)) = Some 1"
proof -
  let ?p = "defaultProps\<lparr>imageLoaded := True, imageUpload := True\<rparr>"
  let ?f = "\<lparr>file_name = ''cat.png'', file_size = 3\<rparr>"
  let ?evs = "[Load 0 ''data:image/png;base64,AAA'', Resolve 0 ''done'']"
  have a: "hasExtension (allowedExtensions ?p) (file_name ?f) = Some True"
    using hasExtension_default_png by simp
  have b: "\<not> maxFileSize ?p < int (file_size ?f)" by (simp add: defaultProps_def)
  have c: "imageLoaded ?p" "imageUpload ?p" by simp_all
  from valid_selection_invokes_both_once [OF a b c, of "initial :: string world"]
  obtain w' where h: "handleFileSelected ?p (Some ?f) (initial :: string world) = Some w'"
    and r: "reads w' = reads (initial :: string world) @ [?f]"
    and u: "uploads w' = uploads (initial :: string world) @ [?f]"
    and n: "\<And>evs w''. list_all (\<lambda>ev. \<not> is_Change ev) evs \<Longrightarrow> run ?p evs w' = Some w'' \<Longrightarrow>
            upload_count w'' = upload_count (initial :: string world) + 1
            \<and> loaded_count w'' + length (reads w'') =
                loaded_count (initial :: string world) + length (reads (initial :: string world)) + 1"
    by blast
  define w2 where "w2 = upload_then ?p ''done''
      ((onload ?f ''data:image/png;base64,AAA'' (w'\<lparr>reads := []\<rparr>))\<lparr>uploads := []\<rparr>)"
  from r u have r': "reads w' = [?f]" and u': "uploads w' = [?f]"
    by (simp_all add: initial_def)
  have run2: "run ?p ?evs w' = Some w2"
    by (simp add: r' u' remove_nth_def onload_simps w2_def)
  have "reads w2 = []" by (simp add: w2_def upload_then_simps onload_simps)
  with n [OF _ run2] have "upload_count w2 = 1" "loaded_count w2 = 1"
    by (simp_all add: initial_def upload_count_def loaded_count_def)
  moreover have "run ?p (Change (Some ?f) # ?evs) (initial :: string world) = Some w2"
    using h run2 by (simp add: initial_def)
  ultimately show ?thesis using a b by simp
qed

section \<open>The error window\<close>











text \<open>The same for the text: only a timeout that is due empties \<open>errorText\<close>.\<close>

lemma handleFileSelected_text:
  assumes "handleFileSelected p e w = Some w'"
  shows "(errorText (state w) \<noteq> [] \<longrightarrow> errorText (state w') \<noteq> [])
       \<and> progress (state w') = progress (state w)"
  using assms
  by (auto simp: handleFileSelected_def handleError_state Let_def readFile_def
      setState_def split: option.splits if_splits)





section \<open>The progress value after a rejected upload\<close>

text \<open>
  Which events change \<open>progress\<close>: a progress report sets it and a fulfilled upload clears it;
  no other event touches it.
\<close>

lemma step_progress:
  assumes "step p ev w = Some w'" and "progress (state w') \<noteq> progress (state w)"
  shows "(\<exists>k resp. ev = Resolve k resp \<and> k < length (uploads w) \<and> progress (state w') = None)
       \<or> (\<exists>m. ev = Progress m \<and> progress (state w') = Some m)"
proof (cases ev)
  case (Change e)
  with assms(1) have "handleFileSelected p e w = Some w'" by (simp split: if_splits)
  from handleFileSelected_text [OF this] assms(2) show ?thesis by simp
qed (use assms in \<open>auto simp: onload_simps upload_then_simps upload_catch_simps
      handleReportProgress_simps timeout_callback_simps split: if_splits\<close>)

lemma run_progress_kept:
  assumes "list_all (\<lambda>ev. \<not> is_Resolve ev \<and> \<not> is_Progress ev) evs" and "run p evs w = Some w'"
  shows "progress (state w') = progress (state w)"
  using assms
proof (induction evs arbitrary: w)
  case Nil
  then show ?case by simp
next
  case (Cons ev evs)
  from Cons.prems(2) obtain w1 where s: "step p ev w = Some w1" and r: "run p evs w1 = Some w'"
    by (auto split: option.splits)
  from Cons.prems(1) have ev: "\<not> is_Resolve ev" "\<not> is_Progress ev"
    and evs: "list_all (\<lambda>ev. \<not> is_Resolve ev \<and> \<not> is_Progress ev) evs"
    by simp_all
  have "progress (state w1) = progress (state w)"
  proof (rule ccontr)
    assume "progress (state w1) \<noteq> progress (state w)"
    from step_progress [OF s this] ev show False by auto
  qed
  with Cons.IH [OF evs r] show ?case by simp
qed

text \<open>
  C10: the handler of a rejected upload sets \<open>isUploading\<close> to false and changes nothing
  else in the state (so it leaves \<open>progress\<close> as it is), while the handler of a fulfilled
  upload clears \<open>progress\<close>; a value of \<open>progress\<close> is cleared by no event but a fulfilled
  upload, and changed by no event but that and a progress report. So after a progress report
  and a rejection, whatever happens next short of those two events, and in particular at the
  next valid selection with an upload, \<open>progress\<close> still holds the value reported during the
  failed upload.
\<close>

theorem stale_progress_after_rejection:
  fixes w :: "'v world"
  assumes "k < length (uploads w)"
    and "hasExtension (allowedExtensions p) (file_name f) = Some True"
    and "\<not> maxFileSize p < int (file_size f)" and "imageUpload p"
  shows "progress (state (upload_catch p v w)) = progress (state w)
       \<and> \<not> isUploading (state (upload_catch p v w))
       \<and> progress (state (upload_then p r w)) = None
       \<and> (\<exists>w'. run p [Progress n, Reject k v, Change (Some f)] w = Some w'
             \<and> isUploading (state w') \<and> progress (state w') = Some n)
       \<and> state (upload_catch p v w) = (state w)\<lparr>isUploading := False\<rparr>
       \<and> calls (upload_catch p v w) =
            calls w @ (if imageUploadError p then [ImageUploadError v] else [])
       \<and> timers (upload_catch p v w) = timers w
       \<and> reads (upload_catch p v w) = reads w
       \<and> uploads (upload_catch p v w) = uploads w
       \<and> now (upload_catch p v w) = now w
       \<and> state (upload_then p r w) = (state w)\<lparr>progress := None, isUploading := False\<rparr>
       \<and> (\<forall>ev (w1 :: 'v world) w2 m.
             step p ev w1 = Some w2 \<and> progress (state w1) = Some m \<and> progress (state w2) = None \<longrightarrow>
             (\<exists>j resp. ev = Resolve j resp \<and> j < length (uploads w1)))
       \<and> (\<forall>ev (w1 :: 'v world) w2.
             step p ev w1 = Some w2 \<and> progress (state w2) \<noteq> progress (state w1) \<longrightarrow>
             (\<exists>j resp. ev = Resolve j resp \<and> j < length (uploads w1) \<and> progress (state w2) = None)
             \<or> (\<exists>m. ev = Progress m \<and> progress (state w2) = Some m))
       \<and> (\<forall>evs w'. list_all (\<lambda>ev. \<not> is_Resolve ev \<and> \<not> is_Progress ev) evs
             \<and> run p (Progress n # Reject k v # evs) w = Some w' \<longrightarrow>
             progress (state w') = Some n)"
proof -
  let ?w2 = "upload_catch p v ((handleReportProgress n w)\<lparr>uploads := remove_nth k (uploads w)\<rparr>)"
  have s: "run p [Progress n, Reject k v] w = Some ?w2"
    using assms(1) by (simp add: handleReportProgress_simps)
  have i: "\<not> isUploading (state ?w2)" and g: "progress (state ?w2) = Some n"
    by (simp_all add: upload_catch_simps handleReportProgress_simps)
  from handleFileSelected_valid [OF assms(2,3), of ?w2]
  obtain w' where h: "handleFileSelected p (Some f) ?w2 = Some w'"
    and w': "w' = (let w1 = (if imageLoaded p then readFile f ?w2 else ?w2)
           in if imageUpload p
              then (setState (\<lambda>s. s\<lparr>isUploading := True\<rparr>) w1)
                     \<lparr>calls := calls w1 @ [ImageUpload f], uploads := uploads w1 @ [f]\<rparr>
              else w1)"
    by simp
  from w' assms(4) g have "isUploading (state w')" "progress (state w') = Some n"
    by (simp_all add: Let_def setState_def readFile_def)
  moreover have "run p [Progress n, Reject k v, Change (Some f)] w = Some w'"
    using assms(1) i h by (simp add: handleReportProgress_simps)
  ultimately have scenario: "\<exists>w'. run p [Progress n, Reject k v, Change (Some f)] w = Some w'
             \<and> isUploading (state w') \<and> progress (state w') = Some n"
    by blast
  have frame: "progress (state (upload_catch p v w)) = progress (state w)"
    "\<not> isUploading (state (upload_catch p v w))"
    "progress (state (upload_then p r w)) = None"
    "state (upload_catch p v w) = (state w)\<lparr>isUploading := False\<rparr>"
    "calls (upload_catch p v w) = calls w @ (if imageUploadError p then [ImageUploadError v] else [])"
    "timers (upload_catch p v w) = timers w"
    "reads (upload_catch p v w) = reads w"
    "uploads (upload_catch p v w) = uploads w"
    "now (upload_catch p v w) = now w"
    "state (upload_then p r w) = (state w)\<lparr>progress := None, isUploading := False\<rparr>"
    by (simp_all add: upload_catch_simps upload_then_simps)
  have changed: "\<forall>ev (w1 :: 'v world) w2.
             step p ev w1 = Some w2 \<and> progress (state w2) \<noteq> progress (state w1) \<longrightarrow>
             (\<exists>j resp. ev = Resolve j resp \<and> j < length (uploads w1) \<and> progress (state w2) = None)
             \<or> (\<exists>m. ev = Progress m \<and> progress (state w2) = Some m)"
    using step_progress by blast
  have cleared: "\<exists>j resp. ev = Resolve j resp \<and> j < length (uploads w1)"
    if "step p ev w1 = Some w2" "progress (state w1) = Some m" "progress (state w2) = None"
    for ev and w1 w2 :: "'v world" and m
  proof -
    from that(2,3) have "progress (state w2) \<noteq> progress (state w1)" by simp
    from step_progress [OF that(1) this] that(3) show ?thesis by auto
  qed
  then have cleared': "\<forall>ev (w1 :: 'v world) w2 m.
             step p ev w1 = Some w2 \<and> progress (state w1) = Some m \<and> progress (state w2) = None \<longrightarrow>
             (\<exists>j resp. ev = Resolve j resp \<and> j < length (uploads w1))"
    by blast
  have kept: "progress (state w') = Some n"
    if "list_all (\<lambda>ev. \<not> is_Resolve ev \<and> \<not> is_Progress ev) evs"
      and "run p (Progress n # Reject k v # evs) w = Some w'" for evs w'
  proof -
    from that(2) s have "run p evs ?w2 = Some w'"
      using assms(1) by (simp add: handleReportProgress_simps)
    from run_progress_kept [OF that(1) this] g show ?thesis by simp
  qed
  then have kept': "\<forall>evs w'. list_all (\<lambda>ev. \<not> is_Resolve ev \<and> \<not> is_Progress ev) evs
             \<and> run p (Progress n # Reject k v # evs) w = Some w' \<longrightarrow>
             progress (state w') = Some n"
    by blast
  show ?thesis
    apply (intro conjI)
    using frame scenario changed cleared' kept' by (assumption | blast)+
qed

theorem stale_progress_after_rejection_witness:
  "map_option (progress \<circ> state)
     (run (defaultProps\<lparr>imageUpload := True\<rparr>)
        [Change (Some \<lparr>file_name = ''cat.png'', file_size = 3\<rparr>), Progress 40,
         Reject 0 ''network down'', Change (Some \<lparr>file_name = ''cat.png'', file_size = 3\<rparr>)]
        (initial :: string world)) = Some (Some 40)
   \<and> map_option (isUploading \<circ> state)
     (run (defaultProps\<lparr>imageUpload := True\<rparr>)
        [Change (Some \<lparr>file_name = ''cat.png'', file_size = 3\<rparr>), Progress 40,
         Reject 0 ''network down'', Change (Some \<lparr>file_name = ''cat.png'', file_size = 3\<rparr>)]
        (initial :: string world)) = Some True
   \<and> map_option (progress \<circ> state)
     (run (defaultProps\<lparr>imageUpload := True\<rparr>)
        [Change (Some \<lparr>file_name = ''cat.png'', file_size = 3\<rparr>), Progress 40,
         Reject 0 ''network down'', Change None, Elapse 5000, Timeout 0]
        (initial :: string world)) = Some (Some 40)"
proof -
  let ?p = "defaultProps\<lparr>imageUpload := True\<rparr>"
  let ?f = "\<lparr>file_name = ''cat.png'', file_size = 3\<rparr>"
  let ?w1 = "(setState (\<lambda>s. s\<lparr>isUploading := True\<rparr>) (initial :: string world))
       \<lparr>calls := [ImageUpload ?f], uploads := [?f]\<rparr>"
  let ?evs = "[Change None, Elapse 5000, Timeout 0] :: string event list"
  have a: "hasExtension (allowedExtensions ?p) (file_name ?f) = Some True"
    using hasExtension_default_png by simp
  have b: "\<not> maxFileSize ?p < int (file_size ?f)" by (simp add: defaultProps_def)
  have c: "imageUpload ?p" by simp
  have first: "step ?p (Change (Some ?f)) (initial :: string world) = Some ?w1"
    using handleFileSelected_valid [OF a b, of "initial :: string world"]
    by (simp add: initial_def Let_def defaultProps_def)
  have k: "0 < length (uploads ?w1)" by simp
  note sp = stale_progress_after_rejection [OF k a b c, of "''network down''" "''done''" 40]
  from sp obtain w' where "run ?p [Progress 40, Reject 0 ''network down'', Change (Some ?f)] ?w1 = Some w'"
    and "isUploading (state w')" and "progress (state w') = Some 40"
    by blast
  moreover have "run ?p [Change (Some ?f), Progress 40, Reject 0 ''network down'', Change (Some ?f)]
      (initial :: string world)
    = run ?p [Progress 40, Reject 0 ''network down'', Change (Some ?f)] ?w1"
    using first by (simp only: run.simps option.case)
  moreover have "map_option (progress \<circ> state)
      (run ?p (Change (Some ?f) # Progress 40 # Reject 0 ''network down'' # ?evs)
         (initial :: string world)) = Some (Some 40)"
  proof -
    have l: "list_all (\<lambda>ev. \<not> is_Resolve ev \<and> \<not> is_Progress ev) ?evs" by simp
    have "\<exists>w''. run ?p (Progress 40 # Reject 0 ''network down'' # ?evs) ?w1 = Some w''"
      by (simp add: handleReportProgress_simps upload_catch_simps remove_nth_def
          handleFileSelected_no_file handleError_rest handleError_state setState_def initial_def)
    then obtain w'' where r: "run ?p (Progress 40 # Reject 0 ''network down'' # ?evs) ?w1 = Some w''"
      by blast
    from sp l r have "progress (state w'') = Some 40" by blast
    moreover have "run ?p (Change (Some ?f) # Progress 40 # Reject 0 ''network down'' # ?evs)
        (initial :: string world) = Some w''"
      using first r by (simp only: run.simps option.case)
    ultimately show ?thesis by simp
  qed
  ultimately show ?thesis by simp
qed

end
